theory Spec2Isabelle
  imports Main "HOL-Library.AList"
begin

section \<open>Python values used by \<open>auto.py\<close>\<close>

text \<open>
  Strings are \<^typ>\<open>string\<close>: a character stands for a code point below 256. The
  exceptions the code can raise are values: \<open>KeyError k\<close> for a failed dictionary
  lookup of key \<open>k\<close>, \<open>IndexError\<close> for a list index out of range, \<open>TypeError\<close> for a
  call whose arguments cannot be bound.
\<close>

datatype error = KeyError string | IndexError | TypeError

text \<open>
  A Python \<open>dict\<close> is an association list in insertion order with distinct keys:
  \<open>d[k]\<close> is \<^const>\<open>map_of\<close>, \<open>d.update({k: v})\<close> is \<^const>\<open>AList.update\<close> (an existing
  key keeps its position and takes the new value, a new key goes to the end), and
  \<open>d.items()\<close> is the list itself.
\<close>

type_synonym ('k, 'v) dict = "('k \<times> 'v) list"

text \<open>
  \<open>str.isspace\<close> on the code points below 256: tab, line feed, vertical tab, form
  feed, carriage return, the four separators 0x1C to 0x1F, space, next line (0x85)
  and no-break space (0xA0).
\<close>

definition isspace :: "char \<Rightarrow> bool" where
  "isspace c \<longleftrightarrow> c \<in> {CHR 0x09, CHR 0x0A, CHR 0x0B, CHR 0x0C, CHR 0x0D,
     CHR 0x1C, CHR 0x1D, CHR 0x1E, CHR 0x1F, CHR 0x20, CHR 0x85, CHR 0xA0}"

text \<open>
  \<open>s.split()\<close> with no argument: runs of whitespace separate the tokens, leading and
  trailing whitespace gives no empty token. \<open>split_from tok s\<close> scans \<open>s\<close> with the
  token read so far in \<open>tok\<close>.
\<close>

fun split_from :: "string \<Rightarrow> string \<Rightarrow> string list" where
  "split_from tok [] = (if tok = [] then [] else [tok])"
| "split_from tok (c # cs) =
     (if isspace c then (if tok = [] then split_from [] cs else tok # split_from [] cs)
      else split_from (tok @ [c]) cs)"

definition str_split :: "string \<Rightarrow> string list" where
  "str_split s = split_from [] s"

text \<open>\<open>sep.join(xs)\<close>.\<close>

fun str_join :: "string \<Rightarrow> string list \<Rightarrow> string" where
  "str_join sep [] = []"
| "str_join sep [x] = x"
| "str_join sep (x # y # ys) = x @ sep @ str_join sep (y # ys)"


section \<open>Units of measure and model characteristics\<close>

text \<open>The constants of class \<open>UnitOfMeasures\<close>.\<close>

definition MPG :: string where "MPG = ''mpg''"
definition CC :: string where "CC = ''cc''"
definition HP :: string where "HP = ''hp''"
definition KG :: string where "KG = ''kg''"
definition SECONDS :: string where "SECONDS = ''secs''"

text \<open>
  The seven concrete subclasses of \<open>ModelCharacteristic\<close>. An instance holds its class,
  \<open>_value\<close> and \<open>_unit_of_measure\<close> (\<open>None\<close> for the subclasses of
  \<open>SimpleModelCharacteristic\<close>); the fields carry the names of their getters. Values are
  strings, as \<open>csv.reader\<close> yields them.
\<close>

datatype characteristic_class =
  MilesPerGallon | NumberOfCylinders | Displacement | HorsePower | Weight | Acceleration | Year

record ModelCharacteristic =
  cls :: characteristic_class
  get_value :: string
  get_unit_of_measure :: "string option"

text \<open>\<open>SimpleModelCharacteristic.__init__\<close> and \<open>ComplexModelCharacteristic.__init__\<close>.\<close>

definition SimpleModelCharacteristic :: "characteristic_class \<Rightarrow> string \<Rightarrow> ModelCharacteristic" where
  "SimpleModelCharacteristic k v = \<lparr>cls = k, get_value = v, get_unit_of_measure = None\<rparr>"

definition ComplexModelCharacteristic ::
    "characteristic_class \<Rightarrow> string \<Rightarrow> string \<Rightarrow> ModelCharacteristic" where
  "ComplexModelCharacteristic k v u = \<lparr>cls = k, get_value = v, get_unit_of_measure = Some u\<rparr>"

text \<open>Calling a class on one value: the \<open>__init__\<close> of each of the seven classes.\<close>

fun construct :: "characteristic_class \<Rightarrow> string \<Rightarrow> ModelCharacteristic" where
  "construct MilesPerGallon v = ComplexModelCharacteristic MilesPerGallon v MPG"
| "construct NumberOfCylinders v = SimpleModelCharacteristic NumberOfCylinders v"
| "construct Displacement v = ComplexModelCharacteristic Displacement v CC"
| "construct HorsePower v = ComplexModelCharacteristic HorsePower v HP"
| "construct Weight v = ComplexModelCharacteristic Weight v KG"
| "construct Acceleration v = ComplexModelCharacteristic Acceleration v SECONDS"
| "construct Year v = SimpleModelCharacteristic Year v"

text \<open>Which classes inherit \<open>get_meaningful_value\<close> from \<open>SimpleModelCharacteristic\<close>.\<close>

fun is_simple :: "characteristic_class \<Rightarrow> bool" where
  "is_simple NumberOfCylinders = True"
| "is_simple Year = True"
| "is_simple _ = False"

text \<open>How an f-string renders the unit field: \<open>None\<close> prints as the word None.\<close>

fun format_unit :: "string option \<Rightarrow> string" where
  "format_unit None = ''None''"
| "format_unit (Some u) = u"

definition get_meaningful_value :: "ModelCharacteristic \<Rightarrow> string" where
  "get_meaningful_value c =
     (if is_simple (cls c) then get_value c
      else get_value c @ '' '' @ format_unit (get_unit_of_measure c))"


section \<open>\<open>ModelCharacteristicBuilder\<close>\<close>

definition CHARACTERISTICS_DICT :: "(string, characteristic_class) dict" where
  "CHARACTERISTICS_DICT =
     [(''mpg'', MilesPerGallon),
      (''cylinders'', NumberOfCylinders),
      (''displacement'', Displacement),
      (''horsepower'', HorsePower),
      (''weight'', Weight),
      (''acceleration'', Acceleration),
      (''year'', Year)]"

text \<open>
  The truth value of a class object in \<open>if characteristic:\<close>. None of the classes has a
  metaclass with \<open>__bool__\<close> or \<open>__len__\<close>, so it is \<open>True\<close>.
\<close>

definition truth :: "characteristic_class \<Rightarrow> bool" where
  "truth k = True"

text \<open>
  \<open>ModelCharacteristicBuilder.build(characteristic_name, value)\<close>. The subscript raises
  \<open>KeyError\<close> before the guard is reached; the result is \<open>Some\<close> instance or Python's
  \<open>None\<close>.
\<close>

definition ModelCharacteristicBuilder_build ::
    "string \<Rightarrow> string \<Rightarrow> error + ModelCharacteristic option" where
  "ModelCharacteristicBuilder_build characteristic_name v =
     (case map_of CHARACTERISTICS_DICT characteristic_name of
        None \<Rightarrow> Inl (KeyError characteristic_name)
      | Some characteristic \<Rightarrow>
          if truth characteristic then Inr (Some (construct characteristic v))
          else Inr None)"


section \<open>\<open>Model\<close>, \<open>Manufacturer\<close> and the store of objects\<close>

text \<open>
  A \<open>Manufacturer\<close> is a mutable object that the registry and its models share by
  reference. The store keeps every \<open>Manufacturer\<close> constructed so far in \<open>objects\<close>, and
  a reference is the index of the object there. \<open>registry\<close> is the dictionary from brand
  to \<open>Manufacturer\<close> reference that \<open>ModelBuilder.build\<close> receives, updates and returns.
  The private fields of \<open>Model\<close> and \<open>Manufacturer\<close> carry the names of their getters.
\<close>

type_synonym ref = nat

record Model =
  get_model_name :: string
  get_manufacturer :: ref
  get_characteristics :: "ModelCharacteristic option list"

record Manufacturer =
  get_brand :: string
  get_all_models :: "Model list"

record store =
  objects :: "Manufacturer list"
  registry :: "(string, ref) dict"

text \<open>\<open>Manufacturer(brand)\<close>: a new object with no models.\<close>

definition new_Manufacturer :: "string \<Rightarrow> Manufacturer" where
  "new_Manufacturer b = \<lparr>get_brand = b, get_all_models = []\<rparr>"

text \<open>
  \<open>manufacturer.add_model(model)\<close> appends to the list of the object behind the
  reference. A reference of a running program always points to an object; on an index
  outside the store the update changes nothing.
\<close>

definition add_model :: "store \<Rightarrow> ref \<Rightarrow> Model \<Rightarrow> store" where
  "add_model s r m =
     s\<lparr>objects := (objects s)[r := (objects s ! r)
                \<lparr>get_all_models := get_all_models (objects s ! r) @ [m]\<rparr>]\<rparr>"


section \<open>\<open>ModelBuilder.build\<close>\<close>

text \<open>
  The loop over \<open>kwargs.items()\<close>: every key but \<open>name\<close> is built and appended; the first
  failing key ends the loop with its error.
\<close>

fun build_characteristics ::
    "(string \<times> string) list \<Rightarrow> ModelCharacteristic option list \<Rightarrow>
     error + ModelCharacteristic option list" where
  "build_characteristics [] characteristics = Inr characteristics"
| "build_characteristics ((key, v) # items) characteristics =
     (if key \<noteq> ''name'' then
        (case ModelCharacteristicBuilder_build key v of
           Inl e \<Rightarrow> Inl e
         | Inr characteristic \<Rightarrow> build_characteristics items (characteristics @ [characteristic]))
      else build_characteristics items characteristics)"

text \<open>
  The call \<open>ModelBuilder.build(registry, **kwargs)\<close>. The keyword arguments are bound
  first: a key \<open>registry\<close> among them clashes with the positional parameter of that
  name, and the call raises \<open>TypeError\<close> before the body runs. Then the body, lines 151
  to 170. An exception carries the store as it is when raised: a \<open>Manufacturer\<close>
  inserted before a failing characteristic stays in the registry.
\<close>

definition ModelBuilder_build :: "store \<Rightarrow> (string, string) dict \<Rightarrow> (error \<times> store) + store" where
  "ModelBuilder_build s kwargs =
     (if ''registry'' \<in> fst ` set kwargs then Inl (TypeError, s)
      else
       (case map_of kwargs ''name'' of
          None \<Rightarrow> Inl (KeyError ''name'', s)
        | Some name \<Rightarrow>
           (case str_split name of
              [] \<Rightarrow> Inl (IndexError, s)
            | brand # rest \<Rightarrow>
               let model_name = str_join '' '' rest;
                   (s1, manufacturer) =
                     (case map_of (registry s) brand of
                        Some m \<Rightarrow> (s, m)
                      | None \<Rightarrow>
                         (s\<lparr>objects := objects s @ [new_Manufacturer brand],
                            registry := AList.update brand (length (objects s)) (registry s)\<rparr>,
                          length (objects s)))
               in (case build_characteristics kwargs [] of
                     Inl e \<Rightarrow> Inl (e, s1)
                   | Inr characteristics \<Rightarrow>
                       Inr (add_model s1 manufacturer
                              \<lparr>get_model_name = model_name, get_manufacturer = manufacturer,
                               get_characteristics = characteristics\<rparr>)))))"


section \<open>\<open>DatasetReader.read\<close>\<close>

text \<open>
  The inner loop over the cells of a record: \<open>header[item_count]\<close> raises \<open>IndexError\<close>
  as soon as \<open>item_count\<close> reaches the length of the header.
\<close>

fun fill_representation ::
    "string list \<Rightarrow> string list \<Rightarrow> nat \<Rightarrow> (string, string) dict \<Rightarrow> error + (string, string) dict" where
  "fill_representation header [] item_count representation = Inr representation"
| "fill_representation header (item # row) item_count representation =
     (if item_count < length header
      then fill_representation header row (item_count + 1)
             (AList.update (header ! item_count) item representation)
      else Inl IndexError)"

text \<open>The \<open>else\<close> branch of the outer loop: one data record.\<close>

definition process_row :: "string list \<Rightarrow> store \<Rightarrow> string list \<Rightarrow> (error \<times> store) + store" where
  "process_row header s row =
     (case fill_representation header row 0 [] of
        Inl e \<Rightarrow> Inl (e, s)
      | Inr representation \<Rightarrow> ModelBuilder_build s representation)"

text \<open>
  The outer loop over the records that \<open>csv.reader\<close> yields. An exception leaves
  \<open>read\<close>, and the registry, a local variable, is lost with it.
\<close>

fun read_loop :: "store \<Rightarrow> nat \<Rightarrow> string list \<Rightarrow> string list list \<Rightarrow> error + store" where
  "read_loop s line_count header [] = Inr s"
| "read_loop s line_count header (row # rows) =
     (if line_count = 0 then read_loop s (line_count + 1) row rows
      else (case process_row header s row of
              Inl (e, _) \<Rightarrow> Inl e
            | Inr s' \<Rightarrow> read_loop s' (line_count + 1) header rows))"

text \<open>
  \<open>DatasetReader.read\<close> on a source whose records are \<open>rows\<close>, called when the
  \<open>Manufacturer\<close> objects \<open>heap\<close> exist already: the registry starts empty. The cells
  printed to standard output are not part of the model.
\<close>

definition DatasetReader_read :: "Manufacturer list \<Rightarrow> string list list \<Rightarrow> error + store" where
  "DatasetReader_read heap rows = read_loop \<lparr>objects = heap, registry = []\<rparr> 0 [] rows"


section \<open>Notions used in the statements\<close>

text \<open>
  \<open>registry[b].get_all_models()\<close>, and the empty list for a brand that is not
  registered.
\<close>

definition models_of :: "store \<Rightarrow> string \<Rightarrow> Model list" where
  "models_of s b =
     (case map_of (registry s) b of None \<Rightarrow> [] | Some r \<Rightarrow> get_all_models (objects s ! r))"

text \<open>Every reference held by the registry points to an object of the store.\<close>

definition valid_refs :: "store \<Rightarrow> bool" where
  "valid_refs s \<longleftrightarrow> (\<forall>r \<in> snd ` set (registry s). r < length (objects s))"

text \<open>
  What a successful \<open>ModelBuilder.build\<close> does to the store, given the brand, the model
  name and the characteristics it has read from the row.
\<close>

definition attach ::
    "store \<Rightarrow> string \<Rightarrow> string \<Rightarrow> ModelCharacteristic option list \<Rightarrow> store" where
  "attach s b mn cs =
     (case map_of (registry s) b of
        Some r \<Rightarrow>
          add_model s r \<lparr>get_model_name = mn, get_manufacturer = r, get_characteristics = cs\<rparr>
      | None \<Rightarrow>
          add_model (s\<lparr>objects := objects s @ [new_Manufacturer b],
                       registry := AList.update b (length (objects s)) (registry s)\<rparr>)
            (length (objects s))
            \<lparr>get_model_name = mn, get_manufacturer = length (objects s),
             get_characteristics = cs\<rparr>)"

text \<open>
  Following the spec: the header names paired with the cells of a record by position,
  as a dictionary.
\<close>

definition zip_header :: "string list \<Rightarrow> string list \<Rightarrow> (string, string) dict" where
  "zip_header header row = AList.updates header row []"

text \<open>
  Following the spec: the fold of \<open>ModelBuilder.build\<close> over a sequence of rows, that
  is the calls \<open>ModelBuilder.build(registry, **kwargs)\<close> one after the other on one
  registry; the first exception ends it.
\<close>

fun fold_build :: "store \<Rightarrow> (string, string) dict list \<Rightarrow> (error \<times> store) + store" where
  "fold_build s [] = Inr s"
| "fold_build s (kwargs # rows) =
     (case ModelBuilder_build s kwargs of Inl e \<Rightarrow> Inl e | Inr s' \<Rightarrow> fold_build s' rows)"

text \<open>
  A registry as a running program can hold it when no \<open>Manufacturer\<close> is registered
  under two brands: valid references, keys that are distinct (it is a dictionary), and
  references that are distinct.
\<close>

definition wf_store :: "store \<Rightarrow> bool" where
  "wf_store s \<longleftrightarrow>
     valid_refs s \<and> distinct (map fst (registry s)) \<and> distinct (map snd (registry s))"

text \<open>
  What lines 151 to 165 of \<open>ModelBuilder.build\<close> read from a row: the brand (the first
  token of the name field, when there is one), the model name and the characteristics.
  \<open>built_model r kwargs\<close> is the \<open>Model\<close> of line 167 for the \<open>Manufacturer\<close> \<open>r\<close>.
\<close>

definition row_brand :: "(string, string) dict \<Rightarrow> string option" where
  "row_brand kwargs =
     (case map_of kwargs ''name'' of
        None \<Rightarrow> None
      | Some name \<Rightarrow> (case str_split name of [] \<Rightarrow> None | brand # rest \<Rightarrow> Some brand))"

definition row_model_name :: "(string, string) dict \<Rightarrow> string" where
  "row_model_name kwargs =
     (case map_of kwargs ''name'' of
        None \<Rightarrow> []
      | Some name \<Rightarrow> str_join '' '' (tl (str_split name)))"

definition row_characteristics :: "(string, string) dict \<Rightarrow> ModelCharacteristic option list" where
  "row_characteristics kwargs =
     (case build_characteristics kwargs [] of Inl e \<Rightarrow> [] | Inr characteristics \<Rightarrow> characteristics)"

definition built_model :: "ref \<Rightarrow> (string, string) dict \<Rightarrow> Model" where
  "built_model r kwargs =
     \<lparr>get_model_name = row_model_name kwargs, get_manufacturer = r,
      get_characteristics = row_characteristics kwargs\<rparr>"

text \<open>The reference \<open>ModelBuilder.build\<close> works with for a brand: the registered one, or
  the next free index of the store.\<close>

definition ref_for :: "store \<Rightarrow> string \<Rightarrow> ref" where
  "ref_for s b = (case map_of (registry s) b of Some r \<Rightarrow> r | None \<Rightarrow> length (objects s))"

text \<open>
  What a consumer reads from a registry, references left out: for each brand of the
  registry, in its order, the brand of the \<open>Manufacturer\<close> and its models, each with its
  name and, for each characteristic, kind, raw value, unit and rendering.
\<close>

type_synonym attribute_tuple = "characteristic_class \<times> string \<times> string option \<times> string"

definition attribute_content :: "ModelCharacteristic option \<Rightarrow> attribute_tuple option" where
  "attribute_content =
     map_option (\<lambda>c. (cls c, get_value c, get_unit_of_measure c, get_meaningful_value c))"

definition model_content :: "Model \<Rightarrow> string \<times> attribute_tuple option list" where
  "model_content m = (get_model_name m, map attribute_content (get_characteristics m))"

definition registry_content ::
    "store \<Rightarrow> (string \<times> string \<times> (string \<times> attribute_tuple option list) list) list" where
  "registry_content s =
     map (\<lambda>(b, r). (b, get_brand (objects s ! r),
                      map model_content (get_all_models (objects s ! r))))
       (registry s)"

text \<open>The effect of \<^const>\<open>attach\<close> on the content of a registry.\<close>

definition content_attach ::
    "(string \<times> string \<times> 'm list) list \<Rightarrow> string \<Rightarrow> 'm \<Rightarrow> (string \<times> string \<times> 'm list) list" where
  "content_attach c b m =
     (if b \<in> fst ` set c
      then map (\<lambda>(k, br, ms). if k = b then (k, br, ms @ [m]) else (k, br, ms)) c
      else c @ [(b, b, [m])])"


section \<open>The attribute factory\<close>

text \<open>
  C3. For each of the seven recognised column names and every raw value \<open>v\<close>, the factory
  returns an instance whose \<open>get_meaningful_value\<close> is \<open>v\<close>, a space and the unit for
  mpg, displacement (cc), horsepower (hp), weight (kg) and acceleration (secs), and \<open>v\<close>
  alone for cylinders and year.
\<close>

theorem attribute_rendering:
  "(\<exists>c. ModelCharacteristicBuilder_build ''mpg'' v = Inr (Some c)
        \<and> get_meaningful_value c = v @ '' mpg'') \<and>
   (\<exists>c. ModelCharacteristicBuilder_build ''cylinders'' v = Inr (Some c)
        \<and> get_meaningful_value c = v) \<and>
   (\<exists>c. ModelCharacteristicBuilder_build ''displacement'' v = Inr (Some c)
        \<and> get_meaningful_value c = v @ '' cc'') \<and>
   (\<exists>c. ModelCharacteristicBuilder_build ''horsepower'' v = Inr (Some c)
        \<and> get_meaningful_value c = v @ '' hp'') \<and>
   (\<exists>c. ModelCharacteristicBuilder_build ''weight'' v = Inr (Some c)
        \<and> get_meaningful_value c = v @ '' kg'') \<and>
   (\<exists>c. ModelCharacteristicBuilder_build ''acceleration'' v = Inr (Some c)
        \<and> get_meaningful_value c = v @ '' secs'') \<and>
   (\<exists>c. ModelCharacteristicBuilder_build ''year'' v = Inr (Some c)
        \<and> get_meaningful_value c = v)"
  by (simp add: ModelCharacteristicBuilder_build_def CHARACTERISTICS_DICT_def truth_def
      get_meaningful_value_def ComplexModelCharacteristic_def SimpleModelCharacteristic_def
      MPG_def CC_def HP_def KG_def SECONDS_def)

section \<open>Unknown column names\<close>

lemma recognised_iff:
  "map_of CHARACTERISTICS_DICT n = None \<longleftrightarrow>
   n \<notin> {''mpg'', ''cylinders'', ''displacement'', ''horsepower'', ''weight'',
         ''acceleration'', ''year''}"
  by (simp add: CHARACTERISTICS_DICT_def)

lemma build_not_None: "ModelCharacteristicBuilder_build k v \<noteq> Inr None"
  by (simp add: ModelCharacteristicBuilder_build_def truth_def split: option.splits)

text \<open>
  C4. \<open>ModelCharacteristicBuilder.build\<close> raises exactly when the name is not one of the
  seven recognised column names, and the error is then the \<open>KeyError\<close> of the lookup; for
  a recognised name it returns the instance its class constructs; it never returns
  \<open>None\<close>, so the \<open>else\<close> branch of the guard is dead.
\<close>

theorem build_fails_exactly_on_unknown_names:
  "((\<exists>e. ModelCharacteristicBuilder_build n v = Inl e) \<longleftrightarrow>
      n \<notin> {''mpg'', ''cylinders'', ''displacement'', ''horsepower'', ''weight'',
            ''acceleration'', ''year''}) \<and>
   ModelCharacteristicBuilder_build n v =
     (case map_of CHARACTERISTICS_DICT n of
        None \<Rightarrow> Inl (KeyError n)
      | Some k \<Rightarrow> Inr (Some (construct k v))) \<and>
   ModelCharacteristicBuilder_build n v \<noteq> Inr None"
  using recognised_iff [of n]
  by (auto simp add: ModelCharacteristicBuilder_build_def truth_def split: option.splits)

theorem build_fails_exactly_on_unknown_names_witness:
  "ModelCharacteristicBuilder_build ''colour'' ''red'' = Inl (KeyError ''colour'') \<and>
   ModelCharacteristicBuilder_build ''year'' ''1985'' =
     Inr (Some \<lparr>cls = Year, get_value = ''1985'', get_unit_of_measure = None\<rparr>)"
  using build_fails_exactly_on_unknown_names [of "''colour''" "''red''"]
    build_fails_exactly_on_unknown_names [of "''year''" "''1985''"]
  by (simp add: CHARACTERISTICS_DICT_def SimpleModelCharacteristic_def)


section \<open>One call of \<open>ModelBuilder.build\<close>\<close>

lemma split_from_spaces: "\<forall>c \<in> set s. isspace c \<Longrightarrow> split_from [] s = []"
  by (induction s) auto

lemma split_from_skip: "\<forall>c \<in> set w. isspace c \<Longrightarrow> split_from [] (w @ s) = split_from [] s"
  by (induction w) auto

lemma split_from_token:
  "\<forall>c \<in> set t. \<not> isspace c \<Longrightarrow> split_from tok (t @ s) = split_from (tok @ t) s"
  by (induction t arbitrary: tok) auto

lemma split_from_sep:
  assumes "tok \<noteq> []" "w \<noteq> []" "\<forall>c \<in> set w. isspace c"
  shows "split_from tok (w @ s) = tok # split_from [] s"
proof (cases w)
  case Nil
  with assms(2) show ?thesis by simp
next
  case (Cons c w')
  with assms(3) have "isspace c" "\<forall>c \<in> set w'. isspace c" by simp_all
  with Cons assms(1) show ?thesis by (simp add: split_from_skip)
qed

lemma split_from_end:
  assumes "tok \<noteq> []" "\<forall>c \<in> set w. isspace c"
  shows "split_from tok w = [tok]"
proof (cases "w = []")
  case True
  with assms(1) show ?thesis by simp
next
  case False
  with assms split_from_sep [of tok w "[]"] show ?thesis by simp
qed

lemma split_from_tokens:
  assumes "tok \<noteq> []"
    and "\<forall>(sep, t) \<in> set sts. sep \<noteq> [] \<and> (\<forall>c \<in> set sep. isspace c) \<and>
           t \<noteq> [] \<and> (\<forall>c \<in> set t. \<not> isspace c)"
    and "\<forall>c \<in> set trail. isspace c"
  shows "split_from tok (concat (map (\<lambda>(sep, t). sep @ t) sts) @ trail) = tok # map snd sts"
  using assms(1,2)
proof (induction sts arbitrary: tok)
  case Nil
  with assms(3) show ?case by (simp add: split_from_end)
next
  case (Cons st sts)
  obtain sep t where st: "st = (sep, t)" by (cases st)
  with Cons.prems(2) have sep: "sep \<noteq> []" "\<forall>c \<in> set sep. isspace c"
    and t: "t \<noteq> []" "\<forall>c \<in> set t. \<not> isspace c"
    and rest: "\<forall>(sep, t) \<in> set sts. sep \<noteq> [] \<and> (\<forall>c \<in> set sep. isspace c) \<and>
           t \<noteq> [] \<and> (\<forall>c \<in> set t. \<not> isspace c)"
    by simp_all
  let ?tail = "concat (map (\<lambda>(sep, t). sep @ t) sts) @ trail"
  have "split_from tok (sep @ t @ ?tail) = tok # split_from [] (t @ ?tail)"
    using Cons.prems(1) sep by (rule split_from_sep)
  also have "split_from [] (t @ ?tail) = split_from t ?tail"
    using t(2) split_from_token [of t "[]" ?tail] by simp
  also have "\<dots> = t # map snd sts"
    using t(1) rest by (rule Cons.IH)
  finally show ?case by (simp add: st)
qed

lemma str_split_tokens:
  assumes "\<forall>c \<in> set lead. isspace c"
    and "b \<noteq> []" "\<forall>c \<in> set b. \<not> isspace c"
    and "\<forall>(sep, t) \<in> set sts. sep \<noteq> [] \<and> (\<forall>c \<in> set sep. isspace c) \<and>
           t \<noteq> [] \<and> (\<forall>c \<in> set t. \<not> isspace c)"
    and "\<forall>c \<in> set trail. isspace c"
  shows "str_split (lead @ b @ concat (map (\<lambda>(sep, t). sep @ t) sts) @ trail) = b # map snd sts"
proof -
  let ?tail = "concat (map (\<lambda>(sep, t). sep @ t) sts) @ trail"
  have "str_split (lead @ b @ ?tail) = split_from [] (b @ ?tail)"
    using assms(1) by (simp add: str_split_def split_from_skip)
  also have "\<dots> = split_from b ?tail"
    using assms(3) split_from_token [of b "[]" ?tail] by simp
  also have "\<dots> = b # map snd sts"
    using assms(2,4,5) by (rule split_from_tokens)
  finally show ?thesis .
qed

lemma str_join_concat:
  "str_join sep xs = (case xs of [] \<Rightarrow> [] | x # ys \<Rightarrow> x @ concat (map (\<lambda>y. sep @ y) ys))"
  by (induction sep xs rule: str_join.induct) simp_all

lemma build_characteristics_Inr_iff:
  "build_characteristics items acc = Inr res \<longleftrightarrow>
     (\<exists>cs. res = acc @ cs \<and>
        map Inr cs = map (\<lambda>(k, v). ModelCharacteristicBuilder_build k v)
                       (filter (\<lambda>(k, v). k \<noteq> ''name'') items))"
proof (induction items acc rule: build_characteristics.induct)
  case (1 acc)
  then show ?case by auto
next
  case (2 key v items acc)
  show ?case
  proof (cases "key = ''name''")
    case True
    with 2 show ?thesis by simp
  next
    case False
    show ?thesis
    proof (cases "ModelCharacteristicBuilder_build key v")
      case (Inl e)
      with False show ?thesis by (auto simp: map_eq_Cons_conv)
    next
      case (Inr c)
      with False 2(1) [OF _ Inr] show ?thesis
        by (auto simp: map_eq_Cons_conv Cons_eq_map_conv)
    qed
  qed
qed

lemma build_characteristics_Inl:
  "build_characteristics items acc = Inl e \<Longrightarrow>
     \<exists>k \<in> fst ` set items. k \<noteq> ''name'' \<and> k \<notin> fst ` set CHARACTERISTICS_DICT \<and> e = KeyError k"
proof (induction items acc rule: build_characteristics.induct)
  case (1 acc)
  then show ?case by simp
next
  case (2 key v items acc)
  show ?case
  proof (cases "key = ''name''")
    case True
    with 2 show ?thesis by auto
  next
    case False
    show ?thesis
    proof (cases "ModelCharacteristicBuilder_build key v")
      case (Inl e')
      then have "map_of CHARACTERISTICS_DICT key = None" "e' = KeyError key"
        by (auto simp: ModelCharacteristicBuilder_build_def split: option.splits if_splits)
      moreover from Inl False 2(3) have "e = e'" by simp
      ultimately show ?thesis using False by (force simp: map_of_eq_None_iff)
    next
      case (Inr c)
      with False 2 show ?thesis by auto
    qed
  qed
qed

lemma build_characteristics_recognised:
  assumes "\<forall>k \<in> fst ` set items. k \<noteq> ''name'' \<longrightarrow> k \<in> fst ` set CHARACTERISTICS_DICT"
  shows "\<exists>cs. build_characteristics items acc = Inr cs"
proof (cases "build_characteristics items acc")
  case (Inl e)
  from build_characteristics_Inl [OF this] assms show ?thesis by blast
next
  case (Inr cs)
  then show ?thesis by blast
qed

lemma characteristics_no_registry:
  assumes "build_characteristics items acc = Inr res"
  shows "''registry'' \<notin> fst ` set items"
proof
  assume "''registry'' \<in> fst ` set items"
  then obtain v where "(''registry'', v) \<in> set items" by auto
  then have "ModelCharacteristicBuilder_build ''registry'' v \<in>
      set (map (\<lambda>(k, v). ModelCharacteristicBuilder_build k v)
             (filter (\<lambda>(k, v). k \<noteq> ''name'') items))"
    by force
  moreover from assms obtain cs where
    "map Inr cs = map (\<lambda>(k, v). ModelCharacteristicBuilder_build k v)
       (filter (\<lambda>(k, v). k \<noteq> ''name'') items)"
    unfolding build_characteristics_Inr_iff by blast
  ultimately have "ModelCharacteristicBuilder_build ''registry'' v \<in>
      set (map (Inr :: _ \<Rightarrow> error + _) cs)"
    by simp
  then show False
    by (auto simp add: ModelCharacteristicBuilder_build_def CHARACTERISTICS_DICT_def)
qed

lemma ModelBuilder_build_Inr:
  assumes "map_of kw ''name'' = Some n" "str_split n = b # rest"
    "build_characteristics kw [] = Inr cs"
  shows "ModelBuilder_build s kw = Inr (attach s b (str_join '' '' rest) cs)"
  using assms characteristics_no_registry [OF assms(3)]
  by (simp add: ModelBuilder_build_def attach_def split: option.splits)

lemma ModelBuilder_build_Inr_iff:
  "ModelBuilder_build s kw = Inr s' \<longleftrightarrow>
     (\<exists>n b rest cs. map_of kw ''name'' = Some n \<and> str_split n = b # rest \<and>
        build_characteristics kw [] = Inr cs \<and> s' = attach s b (str_join '' '' rest) cs)"
proof
  assume "ModelBuilder_build s kw = Inr s'"
  then show "\<exists>n b rest cs. map_of kw ''name'' = Some n \<and> str_split n = b # rest \<and>
      build_characteristics kw [] = Inr cs \<and> s' = attach s b (str_join '' '' rest) cs"
    by (auto simp add: ModelBuilder_build_def attach_def
        split: if_splits option.splits list.splits sum.splits)
next
  assume "\<exists>n b rest cs. map_of kw ''name'' = Some n \<and> str_split n = b # rest \<and>
      build_characteristics kw [] = Inr cs \<and> s' = attach s b (str_join '' '' rest) cs"
  then show "ModelBuilder_build s kw = Inr s'"
    by (auto simp add: ModelBuilder_build_Inr)
qed


lemma registry_attach:
  "registry (attach s b mn cs) =
     (case map_of (registry s) b of Some r \<Rightarrow> registry s
      | None \<Rightarrow> AList.update b (length (objects s)) (registry s))"
  by (simp add: attach_def add_model_def split: option.splits)

lemma length_objects_attach:
  "length (objects (attach s b mn cs)) =
     (case map_of (registry s) b of Some r \<Rightarrow> length (objects s) | None \<Rightarrow> Suc (length (objects s)))"
  by (simp add: attach_def add_model_def split: option.splits)

lemma valid_refs_lookup: "valid_refs s \<Longrightarrow> map_of (registry s) b = Some r \<Longrightarrow> r < length (objects s)"
  by (force simp: valid_refs_def dest: map_of_SomeD)

lemma attach_known:
  assumes "valid_refs s" "map_of (registry s) b = Some r"
  shows "map_of (registry (attach s b mn cs)) b = Some r"
    and "models_of (attach s b mn cs) b = models_of s b @
           [\<lparr>get_model_name = mn, get_manufacturer = r, get_characteristics = cs\<rparr>]"
  using assms valid_refs_lookup [OF assms]
  by (simp_all add: attach_def add_model_def models_of_def)

lemma attach_new:
  assumes "map_of (registry s) b = None"
  shows "map_of (registry (attach s b mn cs)) b = Some (length (objects s))"
    and "objects (attach s b mn cs) ! length (objects s) =
           \<lparr>get_brand = b, get_all_models =
              [\<lparr>get_model_name = mn, get_manufacturer = length (objects s), get_characteristics = cs\<rparr>]\<rparr>"
    and "models_of (attach s b mn cs) b = models_of s b @
           [\<lparr>get_model_name = mn, get_manufacturer = length (objects s), get_characteristics = cs\<rparr>]"
  using assms
  by (simp_all add: attach_def add_model_def models_of_def update_conv' new_Manufacturer_def)

text \<open>
  C2. For a valid row (a name field with at least one token, every other field a
  recognised column) and a registry whose references are valid, \<open>ModelBuilder.build\<close>
  succeeds and appends one \<open>Model\<close> to the models of the brand, the first token of the
  name. Its display name is the remaining tokens of the name joined by single spaces.
  Read off the name itself: when the name is a token \<open>b\<close> followed by tokens, each
  after a run of whitespace, with whitespace allowed before and after, then the brand is
  \<open>b\<close> and the display name is the first of the further tokens followed by each of the
  others after one space. The characteristics are what the factory returns for the
  fields other than \<open>name\<close>, one for each and in the order of the row, none of them
  \<open>None\<close>.
\<close>

theorem build_constructs_model:
  assumes "valid_refs s"
    and "map_of kwargs ''name'' = Some name"
    and "str_split name \<noteq> []"
    and "\<forall>k \<in> fst ` set kwargs. k \<noteq> ''name'' \<longrightarrow> k \<in> fst ` set CHARACTERISTICS_DICT"
  shows "\<exists>s' r m. ModelBuilder_build s kwargs = Inr s' \<and>
           map_of (registry s') (hd (str_split name)) = Some r \<and>
           models_of s' (hd (str_split name)) = models_of s (hd (str_split name)) @ [m] \<and>
           get_manufacturer m = r \<and>
           get_model_name m = str_join '' '' (tl (str_split name)) \<and>
           (\<forall>lead b sts trail.
              name = lead @ b @ concat (map (\<lambda>(sep, t). sep @ t) sts) @ trail \<and>
              (\<forall>c \<in> set lead. isspace c) \<and> (\<forall>c \<in> set trail. isspace c) \<and>
              b \<noteq> [] \<and> (\<forall>c \<in> set b. \<not> isspace c) \<and>
              (\<forall>(sep, t) \<in> set sts. sep \<noteq> [] \<and> (\<forall>c \<in> set sep. isspace c) \<and>
                 t \<noteq> [] \<and> (\<forall>c \<in> set t. \<not> isspace c)) \<longrightarrow>
              hd (str_split name) = b \<and>
              get_model_name m =
                (case map snd sts of [] \<Rightarrow> [] | t # ts \<Rightarrow> t @ concat (map (\<lambda>u. '' '' @ u) ts))) \<and>
           map Inr (get_characteristics m) =
             map (\<lambda>(k, v). ModelCharacteristicBuilder_build k v)
               (filter (\<lambda>(k, v). k \<noteq> ''name'') kwargs) \<and>
           length (get_characteristics m) = length (filter (\<lambda>(k, v). k \<noteq> ''name'') kwargs) \<and>
           None \<notin> set (get_characteristics m)"
proof -
  obtain b rest where parts: "str_split name = b # rest"
    using assms(3) by (cases "str_split name") auto
  obtain cs where cs: "build_characteristics kwargs [] = Inr cs"
    using build_characteristics_recognised [OF assms(4)] by blast
  then have fields: "map Inr cs = map (\<lambda>(k, v). ModelCharacteristicBuilder_build k v)
      (filter (\<lambda>(k, v). k \<noteq> ''name'') kwargs)"
    by (simp add: build_characteristics_Inr_iff)
  then have "length (map (Inr :: _ \<Rightarrow> error + _) cs) = length (filter (\<lambda>(k, v). k \<noteq> ''name'') kwargs)"
    by simp
  then have len: "length cs = length (filter (\<lambda>(k, v). k \<noteq> ''name'') kwargs)"
    by simp
  have some: "None \<notin> set cs"
  proof
    assume "None \<in> set cs"
    then have "Inr None \<in> set (map (Inr :: _ \<Rightarrow> error + _) cs)" by simp
    with fields show False by (auto simp: build_not_None [symmetric])
  qed
  have form: "hd (str_split name) = b' \<and>
      str_join '' '' rest =
        (case map snd sts of [] \<Rightarrow> [] | t # ts \<Rightarrow> t @ concat (map (\<lambda>u. '' '' @ u) ts))"
    if "name = lead @ b' @ concat (map (\<lambda>(sep, t). sep @ t) sts) @ trail \<and>
        (\<forall>c \<in> set lead. isspace c) \<and> (\<forall>c \<in> set trail. isspace c) \<and>
        b' \<noteq> [] \<and> (\<forall>c \<in> set b'. \<not> isspace c) \<and>
        (\<forall>(sep, t) \<in> set sts. sep \<noteq> [] \<and> (\<forall>c \<in> set sep. isspace c) \<and>
           t \<noteq> [] \<and> (\<forall>c \<in> set t. \<not> isspace c))"
    for lead b' sts trail
  proof -
    from that have "str_split name = b' # map snd sts"
      by (simp add: str_split_tokens)
    with parts have "b = b'" "rest = map snd sts" by simp_all
    with parts show ?thesis by (simp add: str_join_concat)
  qed
  let ?s' = "attach s b (str_join '' '' rest) cs"
  have built: "ModelBuilder_build s kwargs = Inr ?s'"
    using assms(2) parts cs by (rule ModelBuilder_build_Inr)
  have final: ?thesis
    if r: "map_of (registry ?s') b = Some r"
      and models: "models_of ?s' b = models_of s b @
        [\<lparr>get_model_name = str_join '' '' rest, get_manufacturer = r, get_characteristics = cs\<rparr>]"
    for r
  proof (intro exI conjI)
    show "ModelBuilder_build s kwargs = Inr ?s'" by (rule built)
    show "map_of (registry ?s') (hd (str_split name)) = Some r"
      using r parts by simp
    show "models_of ?s' (hd (str_split name)) = models_of s (hd (str_split name)) @
        [\<lparr>get_model_name = str_join '' '' rest, get_manufacturer = r, get_characteristics = cs\<rparr>]"
      using models parts by simp
    show "get_manufacturer
        \<lparr>get_model_name = str_join '' '' rest, get_manufacturer = r, get_characteristics = cs\<rparr> = r"
      by simp
    show "get_model_name
        \<lparr>get_model_name = str_join '' '' rest, get_manufacturer = r, get_characteristics = cs\<rparr> =
        str_join '' '' (tl (str_split name))"
      using parts by simp
    show "\<forall>lead b sts trail.
        name = lead @ b @ concat (map (\<lambda>(sep, t). sep @ t) sts) @ trail \<and>
        (\<forall>c \<in> set lead. isspace c) \<and> (\<forall>c \<in> set trail. isspace c) \<and>
        b \<noteq> [] \<and> (\<forall>c \<in> set b. \<not> isspace c) \<and>
        (\<forall>(sep, t) \<in> set sts. sep \<noteq> [] \<and> (\<forall>c \<in> set sep. isspace c) \<and>
           t \<noteq> [] \<and> (\<forall>c \<in> set t. \<not> isspace c)) \<longrightarrow>
        hd (str_split name) = b \<and>
        get_model_name
          \<lparr>get_model_name = str_join '' '' rest, get_manufacturer = r, get_characteristics = cs\<rparr> =
          (case map snd sts of [] \<Rightarrow> [] | t # ts \<Rightarrow> t @ concat (map (\<lambda>u. '' '' @ u) ts))"
    proof (intro allI impI)
      fix lead b' sts trail
      assume "name = lead @ b' @ concat (map (\<lambda>(sep, t). sep @ t) sts) @ trail \<and>
        (\<forall>c \<in> set lead. isspace c) \<and> (\<forall>c \<in> set trail. isspace c) \<and>
        b' \<noteq> [] \<and> (\<forall>c \<in> set b'. \<not> isspace c) \<and>
        (\<forall>(sep, t) \<in> set sts. sep \<noteq> [] \<and> (\<forall>c \<in> set sep. isspace c) \<and>
           t \<noteq> [] \<and> (\<forall>c \<in> set t. \<not> isspace c))"
      then have "hd (str_split name) = b' \<and>
          str_join '' '' rest =
            (case map snd sts of [] \<Rightarrow> [] | t # ts \<Rightarrow> t @ concat (map (\<lambda>u. '' '' @ u) ts))"
        by (rule form)
      then show "hd (str_split name) = b' \<and>
          get_model_name
            \<lparr>get_model_name = str_join '' '' rest, get_manufacturer = r, get_characteristics = cs\<rparr> =
            (case map snd sts of [] \<Rightarrow> [] | t # ts \<Rightarrow> t @ concat (map (\<lambda>u. '' '' @ u) ts))"
        by simp
    qed
    show "map Inr (get_characteristics
        \<lparr>get_model_name = str_join '' '' rest, get_manufacturer = r, get_characteristics = cs\<rparr>) =
        map (\<lambda>(k, v). ModelCharacteristicBuilder_build k v)
          (filter (\<lambda>(k, v). k \<noteq> ''name'') kwargs)"
      using fields by simp
    show "length (get_characteristics
        \<lparr>get_model_name = str_join '' '' rest, get_manufacturer = r, get_characteristics = cs\<rparr>) =
        length (filter (\<lambda>(k, v). k \<noteq> ''name'') kwargs)"
      using len by simp
    show "None \<notin> set (get_characteristics
        \<lparr>get_model_name = str_join '' '' rest, get_manufacturer = r, get_characteristics = cs\<rparr>)"
      using some by simp
  qed
  show ?thesis
  proof (cases "map_of (registry s) b")
    case None
    from attach_new(1,3) [OF None] show ?thesis by (rule final)
  next
    case (Some r)
    from attach_known [OF assms(1) Some] show ?thesis by (rule final)
  qed
qed

theorem build_constructs_model_witness:
  "\<exists>s' m. ModelBuilder_build \<lparr>objects = [], registry = []\<rparr>
       [(''name'', '' Ford  Focus ST Line ''), (''mpg'', ''32''), (''cylinders'', ''4''),
        (''year'', ''1985'')] = Inr s' \<and>
     models_of s' ''Ford'' = [m] \<and>
     get_model_name m = ''Focus ST Line'' \<and>
     map (map_option get_meaningful_value) (get_characteristics m) =
       [Some ''32 mpg'', Some ''4'', Some ''1985'']"
proof -
  let ?s = "\<lparr>objects = [], registry = []\<rparr>"
  let ?name = "'' Ford  Focus ST Line ''"
  let ?kw = "[(''name'', ?name), (''mpg'', ''32''), (''cylinders'', ''4''), (''year'', ''1985'')]"
  have form: "?name = '' '' @ ''Ford'' @
      concat (map (\<lambda>(sep, t). sep @ t) [(''  '', ''Focus''), ('' '', ''ST''), ('' '', ''Line'')]) @ '' ''"
    by simp
  have split: "str_split ?name = [''Ford'', ''Focus'', ''ST'', ''Line'']"
    by (simp add: str_split_def isspace_def)
  have "valid_refs ?s" by (simp add: valid_refs_def)
  moreover have "map_of ?kw ''name'' = Some ?name" by simp
  moreover have "str_split ?name \<noteq> []" by (simp add: split)
  moreover have "\<forall>k \<in> fst ` set ?kw. k \<noteq> ''name'' \<longrightarrow> k \<in> fst ` set CHARACTERISTICS_DICT"
    by (simp add: CHARACTERISTICS_DICT_def)
  ultimately obtain s' r m where built: "ModelBuilder_build ?s ?kw = Inr s'"
    and models: "models_of s' (hd (str_split ?name)) = models_of ?s (hd (str_split ?name)) @ [m]"
    and shape: "\<forall>lead b sts trail.
        ?name = lead @ b @ concat (map (\<lambda>(sep, t). sep @ t) sts) @ trail \<and>
        (\<forall>c \<in> set lead. isspace c) \<and> (\<forall>c \<in> set trail. isspace c) \<and>
        b \<noteq> [] \<and> (\<forall>c \<in> set b. \<not> isspace c) \<and>
        (\<forall>(sep, t) \<in> set sts. sep \<noteq> [] \<and> (\<forall>c \<in> set sep. isspace c) \<and>
           t \<noteq> [] \<and> (\<forall>c \<in> set t. \<not> isspace c)) \<longrightarrow>
        hd (str_split ?name) = b \<and>
        get_model_name m =
          (case map snd sts of [] \<Rightarrow> [] | t # ts \<Rightarrow> t @ concat (map (\<lambda>u. '' '' @ u) ts))"
    and attrs: "map Inr (get_characteristics m) =
       map (\<lambda>(k, v). ModelCharacteristicBuilder_build k v) (filter (\<lambda>(k, v). k \<noteq> ''name'') ?kw)"
    using build_constructs_model [of ?s ?kw ?name] by blast
  from shape [rule_format, of "'' ''" "''Ford''"
      "[(''  '', ''Focus''), ('' '', ''ST''), ('' '', ''Line'')]" "'' ''"]
  have "hd (str_split ?name) = ''Ford''" "get_model_name m = ''Focus ST Line''"
    by (simp_all add: isspace_def)
  with models have "models_of s' ''Ford'' = [m]" "get_model_name m = ''Focus ST Line''"
    by (simp_all add: models_of_def)
  moreover from attrs have "map Inr (get_characteristics m) =
       [Inr (Some (construct MilesPerGallon ''32'')), Inr (Some (construct NumberOfCylinders ''4'')),
        Inr (Some (construct Year ''1985'')) :: error + ModelCharacteristic option]"
    by (simp add: ModelCharacteristicBuilder_build_def CHARACTERISTICS_DICT_def truth_def)
  then have "get_characteristics m =
       [Some (construct MilesPerGallon ''32''), Some (construct NumberOfCylinders ''4''),
        Some (construct Year ''1985'')]"
    by (simp add: map_eq_Cons_conv)
  ultimately show ?thesis using built
    by (simp add: get_meaningful_value_def ComplexModelCharacteristic_def
        SimpleModelCharacteristic_def MPG_def)
qed

text \<open>
  C10, as the code has it. When the name field is empty or holds only whitespace, the
  call of \<open>ModelBuilder.build\<close> fails and the store is as it was: no \<open>Manufacturer\<close> and
  no \<open>Model\<close> has been created. The error is the \<open>IndexError\<close> of \<open>name_parts[0]\<close>,
  \<open>split\<close> having found no token, unless the row has a field called \<open>registry\<close>: the
  call then raises \<open>TypeError\<close> before the name is looked at.
\<close>

theorem blank_name_fails:
  assumes "map_of kwargs ''name'' = Some name" and "\<forall>c \<in> set name. isspace c"
  shows "ModelBuilder_build s kwargs =
           Inl (if ''registry'' \<in> fst ` set kwargs then TypeError else IndexError, s)"
  using assms split_from_spaces [of name]
  by (simp add: ModelBuilder_build_def str_split_def)

theorem blank_name_fails_witness:
  "ModelBuilder_build \<lparr>objects = [], registry = []\<rparr> [(''name'', ''''), (''mpg'', ''32'')] =
     Inl (IndexError, \<lparr>objects = [], registry = []\<rparr>) \<and>
   ModelBuilder_build \<lparr>objects = [], registry = []\<rparr>
       [(''name'', [CHR 0x20, CHR 0x09]), (''colour'', ''red'')] =
     Inl (IndexError, \<lparr>objects = [], registry = []\<rparr>)"
  using blank_name_fails [of "[(''name'', ''''), (''mpg'', ''32'')]" "''''"
      "\<lparr>objects = [], registry = []\<rparr>"]
    blank_name_fails [of "[(''name'', [CHR 0x20, CHR 0x09]), (''colour'', ''red'')]"
      "[CHR 0x20, CHR 0x09]" "\<lparr>objects = [], registry = []\<rparr>"]
  by (simp add: isspace_def)

text \<open>
  C10 as the specification words it fails on a row with a blank name and a field called
  \<open>registry\<close>: the error is \<open>TypeError\<close>, no index lookup is reached.
\<close>

theorem blank_name_counterexample:
  "map_of [(''name'', '' ''), (''registry'', ''x'')] ''name'' = Some '' '' \<and>
   str_split '' '' = [] \<and>
   ModelBuilder_build \<lparr>objects = [], registry = []\<rparr> [(''name'', '' ''), (''registry'', ''x'')] =
     Inl (TypeError, \<lparr>objects = [], registry = []\<rparr>) \<and>
   ModelBuilder_build \<lparr>objects = [], registry = []\<rparr> [(''name'', '' ''), (''registry'', ''x'')] \<noteq>
     Inl (IndexError, \<lparr>objects = [], registry = []\<rparr>)"
  by (simp add: ModelBuilder_build_def str_split_def isspace_def)



section \<open>The loop of \<open>DatasetReader.read\<close>\<close>

lemma fill_representation_eq:
  "i \<le> length header \<Longrightarrow>
   fill_representation header row i rep =
     (if i + length row \<le> length header then Inr (AList.updates (drop i header) row rep)
      else Inl IndexError)"
proof (induction row arbitrary: i rep)
  case Nil
  then show ?case by simp
next
  case (Cons item row)
  show ?case
  proof (cases "i < length header")
    case True
    then have "drop i header = header ! i # drop (Suc i) header"
      by (simp add: Cons_nth_drop_Suc)
    with True Cons.IH [of "Suc i"] show ?thesis by simp
  next
    case False
    then show ?thesis by simp
  qed
qed


lemma process_row_long:
  "length header < length row \<Longrightarrow> process_row header s row = Inl (IndexError, s)"
  by (simp add: process_row_def fill_representation_eq)

lemma process_row_fits:
  "length row \<le> length header \<Longrightarrow> process_row header s row = ModelBuilder_build s (zip_header header row)"
  by (simp add: process_row_def fill_representation_eq zip_header_def)


lemma read_loop_count:
  "0 < n \<Longrightarrow> 0 < m \<Longrightarrow> read_loop s n h rows = read_loop s m h rows"
proof (induction rows arbitrary: s n m)
  case Nil
  then show ?case by simp
next
  case (Cons row rows)
  have "read_loop s' (n + 1) h rows = read_loop s' (m + 1) h rows" for s'
    by (rule Cons.IH) simp_all
  with Cons.prems show ?case by (simp split: sum.splits)
qed

lemma read_loop_append:
  "0 < n \<Longrightarrow> read_loop s n h (xs @ ys) =
     (case read_loop s n h xs of Inl e \<Rightarrow> Inl e | Inr s' \<Rightarrow> read_loop s' n h ys)"
proof (induction xs arbitrary: s)
  case Nil
  then show ?case by simp
next
  case (Cons row xs)
  have eq: "read_loop s' (Suc n) h rows = read_loop s' n h rows" for s' rows
    using Cons.prems by (intro read_loop_count) simp_all
  from Cons show ?case by (simp add: eq split: sum.splits prod.splits)
qed

lemma read_header: "DatasetReader_read heap (header # records) =
    read_loop \<lparr>objects = heap, registry = []\<rparr> (Suc 0) header records"
  by (simp add: DatasetReader_read_def)

lemma read_after_prefix:
  assumes "DatasetReader_read heap (header # before) = Inr s"
  shows "DatasetReader_read heap (header # before @ row # after) =
     (case process_row header s row of
        Inl (e, _) \<Rightarrow> Inl e
      | Inr s' \<Rightarrow> read_loop s' (Suc 0) header after)"
proof -
  have eq: "read_loop s' (Suc (Suc 0)) header rows = read_loop s' (Suc 0) header rows" for s' rows
    by (intro read_loop_count) simp_all
  from assms show ?thesis
    by (simp add: read_header read_loop_append eq split: sum.splits prod.splits)
qed

text \<open>
  C8. When the records before a record have been read into the store \<open>s\<close> and the record
  fails there with the error \<open>e\<close>, \<open>DatasetReader.read\<close> raises \<open>e\<close>, whatever
  records come after: nothing is skipped and no registry is returned.
\<close>

theorem failure_aborts_read:
  assumes "DatasetReader_read heap (header # before) = Inr s"
    and "process_row header s row = Inl (e, s')"
  shows "DatasetReader_read heap (header # before @ row # after) = Inl e"
  using assms by (simp add: read_after_prefix)

theorem failure_aborts_read_witness:
  "DatasetReader_read []
     [[''name'', ''mpg'', ''colour''],
      [''Ford Focus'', ''32''],
      [''Ford Fiesta'', ''30'', ''red''],
      [''VW Golf'', ''28'']] = Inl (KeyError ''colour'') \<and>
   (\<exists>s. DatasetReader_read []
     [[''name'', ''mpg'', ''colour''],
      [''Ford Focus'', ''32''],
      [''VW Golf'', ''28'']] = Inr s)"
proof -
  let ?h = "[''name'', ''mpg'', ''colour'']"
  have split: "str_split ''Ford Focus'' = [''Ford'', ''Focus'']"
    "str_split ''Ford Fiesta'' = [''Ford'', ''Fiesta'']"
    "str_split ''VW Golf'' = [''VW'', ''Golf'']"
    by (simp_all add: str_split_def isspace_def)
  note eval = DatasetReader_read_def process_row_def ModelBuilder_build_def
    split add_model_def ModelCharacteristicBuilder_build_def CHARACTERISTICS_DICT_def truth_def
  have "\<exists>s. DatasetReader_read [] [?h, [''Ford Focus'', ''32'']] = Inr s \<and>
      (\<exists>s'. process_row ?h s [''Ford Fiesta'', ''30'', ''red''] = Inl (KeyError ''colour'', s'))"
    by (simp add: eval)
  then obtain s s' where "DatasetReader_read [] [?h, [''Ford Focus'', ''32'']] = Inr s"
    "process_row ?h s [''Ford Fiesta'', ''30'', ''red''] = Inl (KeyError ''colour'', s')"
    by blast
  from failure_aborts_read [OF this, of "[[''VW Golf'', ''28'']]"]
  have "DatasetReader_read [] [?h, [''Ford Focus'', ''32''], [''Ford Fiesta'', ''30'', ''red''],
      [''VW Golf'', ''28'']] = Inl (KeyError ''colour'')"
    by simp
  moreover have "\<exists>s. DatasetReader_read [] [?h, [''Ford Focus'', ''32''], [''VW Golf'', ''28'']] = Inr s"
    by (simp add: eval)
  ultimately show ?thesis by simp
qed

lemma read_loop_fold:
  "\<forall>row \<in> set records. length row \<le> length header \<Longrightarrow>
   read_loop s (Suc n) header records =
     (case fold_build s (map (zip_header header) records) of
        Inl (e, _) \<Rightarrow> Inl e
      | Inr s' \<Rightarrow> Inr s')"
proof (induction records arbitrary: s n)
  case Nil
  then show ?case by simp
next
  case (Cons row records)
  then show ?case
    by (simp add: process_row_fits split: sum.splits prod.splits)
qed

lemma read_loop_Inr_lengths:
  "read_loop s (Suc n) header records = Inr s' \<Longrightarrow> \<forall>row \<in> set records. length row \<le> length header"
proof (induction records arbitrary: s n)
  case Nil
  then show ?case by simp
next
  case (Cons row records)
  from Cons.prems have "length row \<le> length header"
    by (cases "length header < length row") (simp_all add: process_row_long)
  moreover from Cons.prems obtain s1 where "read_loop s1 (Suc (Suc n)) header records = Inr s'"
    by (auto split: sum.splits prod.splits)
  then have "\<forall>row \<in> set records. length row \<le> length header"
    by (rule Cons.IH)
  ultimately show ?case by simp
qed

text \<open>
  C5. On a source with no record \<open>read\<close> returns the empty registry. Otherwise the first
  record is the header, and \<open>read\<close> returns a registry exactly when no data record has
  more cells than the header and the fold of \<open>ModelBuilder.build\<close> over the data records,
  each paired with the header by position, returns that registry from the empty one;
  when no data record is longer than the header, \<open>read\<close> and the fold also raise the
  same error.
\<close>

theorem read_is_fold:
  "DatasetReader_read heap [] = Inr \<lparr>objects = heap, registry = []\<rparr> \<and>
   (DatasetReader_read heap (header # records) = Inr s \<longleftrightarrow>
      (\<forall>row \<in> set records. length row \<le> length header) \<and>
      fold_build \<lparr>objects = heap, registry = []\<rparr> (map (zip_header header) records) = Inr s) \<and>
   ((\<forall>row \<in> set records. length row \<le> length header) \<longrightarrow>
      DatasetReader_read heap (header # records) =
        (case fold_build \<lparr>objects = heap, registry = []\<rparr> (map (zip_header header) records) of
           Inl (e, _) \<Rightarrow> Inl e
         | Inr s' \<Rightarrow> Inr s'))"
proof (intro conjI impI)
  show "DatasetReader_read heap [] = Inr \<lparr>objects = heap, registry = []\<rparr>"
    by (simp add: DatasetReader_read_def)
next
  assume "\<forall>row \<in> set records. length row \<le> length header"
  then show "DatasetReader_read heap (header # records) =
      (case fold_build \<lparr>objects = heap, registry = []\<rparr> (map (zip_header header) records) of
         Inl (e, _) \<Rightarrow> Inl e
       | Inr s' \<Rightarrow> Inr s')"
    by (simp add: read_header read_loop_fold)
next
  show "DatasetReader_read heap (header # records) = Inr s \<longleftrightarrow>
      (\<forall>row \<in> set records. length row \<le> length header) \<and>
      fold_build \<lparr>objects = heap, registry = []\<rparr> (map (zip_header header) records) = Inr s"
  proof
    assume r: "DatasetReader_read heap (header # records) = Inr s"
    then have len: "\<forall>row \<in> set records. length row \<le> length header"
      unfolding read_header by (rule read_loop_Inr_lengths)
    with r show "(\<forall>row \<in> set records. length row \<le> length header) \<and>
        fold_build \<lparr>objects = heap, registry = []\<rparr> (map (zip_header header) records) = Inr s"
      by (auto simp add: read_header read_loop_fold split: sum.splits prod.splits)
  next
    assume "(\<forall>row \<in> set records. length row \<le> length header) \<and>
        fold_build \<lparr>objects = heap, registry = []\<rparr> (map (zip_header header) records) = Inr s"
    then show "DatasetReader_read heap (header # records) = Inr s"
      by (simp add: read_header read_loop_fold)
  qed
qed

theorem read_is_fold_witness:
  "DatasetReader_read []
     [[''name'', ''mpg'', ''cylinders'', ''year''],
      [''Toyota Corolla'', ''32'', ''4'', ''1985'']] =
   Inr \<lparr>objects =
          [\<lparr>get_brand = ''Toyota'',
            get_all_models =
              [\<lparr>get_model_name = ''Corolla'', get_manufacturer = 0,
                get_characteristics =
                  [Some \<lparr>cls = MilesPerGallon, get_value = ''32'',
                         get_unit_of_measure = Some ''mpg''\<rparr>,
                   Some \<lparr>cls = NumberOfCylinders, get_value = ''4'',
                         get_unit_of_measure = None\<rparr>,
                   Some \<lparr>cls = Year, get_value = ''1985'',
                         get_unit_of_measure = None\<rparr>]\<rparr>]\<rparr>],
        registry = [(''Toyota'', 0)]\<rparr>"
proof -
  let ?h = "[''name'', ''mpg'', ''cylinders'', ''year'']"
  let ?r = "[''Toyota Corolla'', ''32'', ''4'', ''1985'']"
  have split: "str_split ''Toyota Corolla'' = [''Toyota'', ''Corolla'']"
    by (simp add: str_split_def isspace_def)
  have len: "\<forall>row \<in> set [?r]. length row \<le> length ?h" by simp
  from read_is_fold [of "[]" ?h "[?r]"] len
  have "DatasetReader_read [] [?h, ?r] =
      (case fold_build \<lparr>objects = [], registry = []\<rparr> (map (zip_header ?h) [?r]) of
         Inl (e, _) \<Rightarrow> Inl e
       | Inr s' \<Rightarrow> Inr s')"
    by blast
  then show ?thesis
    by (simp add: zip_header_def ModelBuilder_build_def split add_model_def
        ModelCharacteristicBuilder_build_def CHARACTERISTICS_DICT_def truth_def
        new_Manufacturer_def ComplexModelCharacteristic_def SimpleModelCharacteristic_def MPG_def)
qed

section \<open>The store along a sequence of calls\<close>

lemma build_Inr_attach:
  assumes "ModelBuilder_build s kw = Inr s'"
  obtains b where "row_brand kw = Some b"
    and "s' = attach s b (row_model_name kw) (row_characteristics kw)"
proof -
  from assms have "ModelBuilder_build s kw = Inr s'"
    by (simp add: ModelBuilder_build_def split: if_splits)
  then obtain n b rest cs where "map_of kw ''name'' = Some n" "str_split n = b # rest"
    "build_characteristics kw [] = Inr cs" "s' = attach s b (str_join '' '' rest) cs"
    unfolding ModelBuilder_build_Inr_iff by blast
  then have "row_brand kw = Some b"
    "s' = attach s b (row_model_name kw) (row_characteristics kw)"
    by (simp_all add: row_brand_def row_model_name_def row_characteristics_def)
  then show thesis by (rule that)
qed

lemma update_absent: "map_of al k = None \<Longrightarrow> AList.update k v al = al @ [(k, v)]"
  by (induction al) (auto split: if_splits)

lemma distinct_refs_inj:
  assumes "distinct (map snd al)" "map_of al k = Some r" "map_of al k' = Some r"
  shows "k = k'"
proof -
  from assms(2,3) have "(k, r) \<in> set al" "(k', r) \<in> set al"
    by (auto dest: map_of_SomeD)
  moreover from assms(1) have "inj_on snd (set al)"
    by (simp add: distinct_map)
  ultimately show ?thesis unfolding inj_on_def by force
qed

lemma attach_lookup:
  "map_of (registry (attach s b mn cs)) k =
     (if k = b then Some (ref_for s b) else map_of (registry s) k)"
  by (simp add: registry_attach ref_for_def update_conv' split: option.splits)

lemma attach_brand_kept:
  "i < length (objects s) \<Longrightarrow>
   get_brand (objects (attach s b mn cs) ! i) = get_brand (objects s ! i)"
proof (cases "map_of (registry s) b")
  case None
  moreover assume "i < length (objects s)"
  ultimately show ?thesis by (simp add: attach_def add_model_def nth_append)
next
  case (Some r)
  moreover assume "i < length (objects s)"
  ultimately show ?thesis by (cases "r = i") (simp_all add: attach_def add_model_def)
qed

lemma attach_models_other:
  assumes "wf_store s" "k \<noteq> b"
  shows "models_of (attach s b mn cs) k = models_of s k"
proof (cases "map_of (registry s) k")
  case None
  with assms(2) show ?thesis by (simp add: models_of_def attach_lookup)
next
  case (Some rk)
  from assms(1) have valid: "valid_refs s" and inj: "distinct (map snd (registry s))"
    by (simp_all add: wf_store_def)
  from valid Some have rk: "rk < length (objects s)" by (rule valid_refs_lookup)
  have "objects (attach s b mn cs) ! rk = objects s ! rk"
  proof (cases "map_of (registry s) b")
    case None
    with rk show ?thesis by (simp add: attach_def add_model_def nth_append)
  next
    case (Some rb)
    with inj \<open>map_of (registry s) k = Some rk\<close> assms(2) have "rb \<noteq> rk"
      by (auto dest: distinct_refs_inj)
    with Some show ?thesis by (simp add: attach_def add_model_def)
  qed
  with Some assms(2) show ?thesis by (simp add: models_of_def attach_lookup)
qed

lemma attach_models:
  assumes "wf_store s"
  shows "models_of (attach s b mn cs) k = models_of s k @
     (if k = b then [\<lparr>get_model_name = mn, get_manufacturer = ref_for s b,
                      get_characteristics = cs\<rparr>] else [])"
proof (cases "k = b")
  case False
  with assms show ?thesis by (simp add: attach_models_other)
next
  case True
  from assms have valid: "valid_refs s" by (simp add: wf_store_def)
  show ?thesis
  proof (cases "map_of (registry s) b")
    case None
    with True attach_new(3) [OF None] show ?thesis by (simp add: ref_for_def)
  next
    case (Some r)
    with True attach_known(2) [OF valid Some] show ?thesis by (simp add: ref_for_def)
  qed
qed

lemma attach_wf:
  assumes "wf_store s"
  shows "wf_store (attach s b mn cs)"
proof (cases "map_of (registry s) b")
  case (Some r)
  with assms show ?thesis
    by (simp add: wf_store_def valid_refs_def registry_attach length_objects_attach)
next
  case None
  from assms have "\<forall>r \<in> snd ` set (registry s). r < length (objects s)"
    by (simp add: wf_store_def valid_refs_def)
  then have fresh: "length (objects s) \<notin> snd ` set (registry s)" by blast
  from None have "b \<notin> fst ` set (registry s)" by (simp add: map_of_eq_None_iff)
  with assms None fresh show ?thesis
    by (auto simp add: wf_store_def valid_refs_def registry_attach length_objects_attach
        update_absent)
qed

lemma fold_build_Cons_Inr:
  assumes "fold_build s0 (kw # rows) = Inr s"
  obtains b where "row_brand kw = Some b"
    and "fold_build (attach s0 b (row_model_name kw) (row_characteristics kw)) rows = Inr s"
proof -
  from assms obtain s1 where 1: "ModelBuilder_build s0 kw = Inr s1" and 2: "fold_build s1 rows = Inr s"
    by (auto split: sum.splits)
  from 1 obtain b where "row_brand kw = Some b"
    "s1 = attach s0 b (row_model_name kw) (row_characteristics kw)"
    by (rule build_Inr_attach)
  with 2 show thesis by (auto intro: that)
qed

lemma run_wf: "wf_store s0 \<Longrightarrow> fold_build s0 rows = Inr s \<Longrightarrow> wf_store s"
proof (induction rows arbitrary: s0)
  case Nil
  then show ?case by simp
next
  case (Cons kw rows)
  from Cons.prems(2) obtain b where
    "fold_build (attach s0 b (row_model_name kw) (row_characteristics kw)) rows = Inr s"
    by (rule fold_build_Cons_Inr)
  with Cons.prems(1) show ?case by (intro Cons.IH [OF attach_wf])
qed

lemma run_keeps_registered:
  "fold_build s0 rows = Inr s \<Longrightarrow> map_of (registry s0) b = Some r \<Longrightarrow>
   map_of (registry s) b = Some r"
proof (induction rows arbitrary: s0)
  case Nil
  then show ?case by simp
next
  case (Cons kw rows)
  from Cons.prems(1) obtain b1 where
    run: "fold_build (attach s0 b1 (row_model_name kw) (row_characteristics kw)) rows = Inr s"
    by (rule fold_build_Cons_Inr)
  from Cons.prems(2)
  have "map_of (registry (attach s0 b1 (row_model_name kw) (row_characteristics kw))) b = Some r"
    by (auto simp add: attach_lookup ref_for_def)
  with run show ?case by (rule Cons.IH)
qed

lemma run_length: "fold_build s0 rows = Inr s \<Longrightarrow> length (objects s0) \<le> length (objects s)"
proof (induction rows arbitrary: s0)
  case Nil
  then show ?case by simp
next
  case (Cons kw rows)
  from Cons.prems obtain b1 where
    run: "fold_build (attach s0 b1 (row_model_name kw) (row_characteristics kw)) rows = Inr s"
    by (rule fold_build_Cons_Inr)
  from Cons.IH [OF run] show ?case
    by (simp add: length_objects_attach split: option.splits)
qed

lemma run_keeps_brand:
  "fold_build s0 rows = Inr s \<Longrightarrow> i < length (objects s0) \<Longrightarrow>
   get_brand (objects s ! i) = get_brand (objects s0 ! i)"
proof (induction rows arbitrary: s0)
  case Nil
  then show ?case by simp
next
  case (Cons kw rows)
  from Cons.prems(1) obtain b1 where
    run: "fold_build (attach s0 b1 (row_model_name kw) (row_characteristics kw)) rows = Inr s"
    by (rule fold_build_Cons_Inr)
  let ?s1 = "attach s0 b1 (row_model_name kw) (row_characteristics kw)"
  from Cons.prems(2) have "i < length (objects ?s1)"
    by (simp add: length_objects_attach split: option.splits)
  with run have "get_brand (objects s ! i) = get_brand (objects ?s1 ! i)"
    by (rule Cons.IH)
  with Cons.prems(2) show ?case by (simp add: attach_brand_kept)
qed

lemma run_new_registered:
  "fold_build s0 rows = Inr s \<Longrightarrow> map_of (registry s0) b = None \<Longrightarrow>
   map_of (registry s) b = Some r \<Longrightarrow>
   length (objects s0) \<le> r \<and> get_brand (objects s ! r) = b"
proof (induction rows arbitrary: s0)
  case Nil
  then show ?case by simp
next
  case (Cons kw rows)
  from Cons.prems(1) obtain b1 where
    run: "fold_build (attach s0 b1 (row_model_name kw) (row_characteristics kw)) rows = Inr s"
    by (rule fold_build_Cons_Inr)
  let ?s1 = "attach s0 b1 (row_model_name kw) (row_characteristics kw)"
  show ?case
  proof (cases "b = b1")
    case True
    with Cons.prems(2) have new: "map_of (registry s0) b1 = None" by simp
    then have "map_of (registry ?s1) b1 = Some (length (objects s0))"
      by (rule attach_new(1))
    with run have "map_of (registry s) b1 = Some (length (objects s0))"
      by (rule run_keeps_registered)
    with Cons.prems(3) True have r: "r = length (objects s0)" by simp
    from new have "length (objects s0) < length (objects ?s1)"
      by (simp add: length_objects_attach)
    with run have "get_brand (objects s ! length (objects s0)) =
        get_brand (objects ?s1 ! length (objects s0))"
      by (rule run_keeps_brand)
    also from new have "\<dots> = b1" by (simp add: attach_new(2))
    finally show ?thesis using r True by simp
  next
    case False
    with Cons.prems(2) have "map_of (registry ?s1) b = None"
      by (simp add: attach_lookup)
    with run have "length (objects ?s1) \<le> r \<and> get_brand (objects s ! r) = b"
      using Cons.prems(3) by (rule Cons.IH)
    moreover have "length (objects s0) \<le> length (objects ?s1)"
      by (simp add: length_objects_attach split: option.splits)
    ultimately show ?thesis by simp
  qed
qed

lemma run_created_registered:
  "fold_build s0 rows = Inr s \<Longrightarrow> length (objects s0) \<le> i \<Longrightarrow> i < length (objects s) \<Longrightarrow>
   map_of (registry s) (get_brand (objects s ! i)) = Some i"
proof (induction rows arbitrary: s0)
  case Nil
  then show ?case by simp
next
  case (Cons kw rows)
  from Cons.prems(1) obtain b1 where
    run: "fold_build (attach s0 b1 (row_model_name kw) (row_characteristics kw)) rows = Inr s"
    by (rule fold_build_Cons_Inr)
  let ?s1 = "attach s0 b1 (row_model_name kw) (row_characteristics kw)"
  show ?case
  proof (cases "length (objects ?s1) \<le> i")
    case True
    with run show ?thesis using Cons.prems(3) by (rule Cons.IH)
  next
    case False
    with Cons.prems(2) have new: "map_of (registry s0) b1 = None" and i: "i = length (objects s0)"
      by (auto simp add: length_objects_attach split: option.splits)
    from new have "map_of (registry ?s1) b1 = Some (length (objects s0))"
      by (rule attach_new(1))
    with run have "map_of (registry s) b1 = Some (length (objects s0))"
      by (rule run_keeps_registered)
    moreover from False i run have "get_brand (objects s ! i) = get_brand (objects ?s1 ! i)"
      by (intro run_keeps_brand) simp_all
    moreover from new i have "get_brand (objects ?s1 ! i) = b1"
      by (simp add: attach_new(2))
    ultimately show ?thesis using i by simp
  qed
qed

lemma run_registers_rows:
  "fold_build s0 rows = Inr s \<Longrightarrow> kw \<in> set rows \<Longrightarrow> row_brand kw = Some b \<Longrightarrow>
   \<exists>r. map_of (registry s) b = Some r"
proof (induction rows arbitrary: s0)
  case Nil
  then show ?case by simp
next
  case (Cons kw1 rows)
  from Cons.prems(1) obtain b1 where b1: "row_brand kw1 = Some b1" and
    run: "fold_build (attach s0 b1 (row_model_name kw1) (row_characteristics kw1)) rows = Inr s"
    by (rule fold_build_Cons_Inr)
  let ?s1 = "attach s0 b1 (row_model_name kw1) (row_characteristics kw1)"
  show ?case
  proof (cases "kw = kw1")
    case True
    with b1 Cons.prems(3) have "map_of (registry ?s1) b = Some (ref_for s0 b1)"
      by (simp add: attach_lookup)
    with run show ?thesis by (blast dest: run_keeps_registered)
  next
    case False
    with Cons.prems(2) have "kw \<in> set rows" by simp
    with run show ?thesis using Cons.prems(3) by (rule Cons.IH)
  qed
qed

lemma run_models:
  "wf_store s0 \<Longrightarrow> fold_build s0 rows = Inr s \<Longrightarrow>
   models_of s b = models_of s0 b @
     map (built_model (ref_for s b)) (filter (\<lambda>kw. row_brand kw = Some b) rows)"
proof (induction rows arbitrary: s0)
  case Nil
  then show ?case by simp
next
  case (Cons kw rows)
  from Cons.prems(2) obtain b1 where b1: "row_brand kw = Some b1" and
    run: "fold_build (attach s0 b1 (row_model_name kw) (row_characteristics kw)) rows = Inr s"
    by (rule fold_build_Cons_Inr)
  let ?s1 = "attach s0 b1 (row_model_name kw) (row_characteristics kw)"
  from Cons.prems(1) have "wf_store ?s1" by (rule attach_wf)
  then have rest: "models_of s b = models_of ?s1 b @
      map (built_model (ref_for s b)) (filter (\<lambda>kw. row_brand kw = Some b) rows)"
    using run by (rule Cons.IH)
  show ?case
  proof (cases "b = b1")
    case False
    with Cons.prems(1) rest b1 show ?thesis by (simp add: attach_models)
  next
    case True
    have "map_of (registry ?s1) b1 = Some (ref_for s0 b1)"
      by (simp add: attach_lookup)
    with run have "map_of (registry s) b1 = Some (ref_for s0 b1)"
      by (rule run_keeps_registered)
    then have "ref_for s b1 = ref_for s0 b1" by (simp add: ref_for_def)
    with Cons.prems(1) rest b1 True show ?thesis
      by (simp add: attach_models built_model_def)
  qed
qed

lemma filter_upt_eq: "a \<le> r \<Longrightarrow> r < c \<Longrightarrow> filter (\<lambda>i. i = r) [a..<c] = [r]"
proof (induction c)
  case 0
  then show ?case by simp
next
  case (Suc c)
  show ?case
  proof (cases "r = c")
    case True
    with Suc.prems have "filter (\<lambda>i. i = r) [a..<c] = []"
      by (auto simp add: filter_empty_conv)
    with True Suc.prems show ?thesis by simp
  next
    case False
    with Suc show ?thesis by simp
  qed
qed

lemma filter_key_distinct:
  "distinct (map fst al) \<Longrightarrow> map_of al k = Some v \<Longrightarrow> filter (\<lambda>e. fst e = k) al = [(k, v)]"
proof (induction al)
  case Nil
  then show ?case by simp
next
  case (Cons e al)
  show ?case
  proof (cases "fst e = k")
    case True
    with Cons.prems(1) have "k \<notin> fst ` set al" by simp
    then have "\<forall>x \<in> set al. fst x \<noteq> k" by blast
    then have "filter (\<lambda>e. fst e = k) al = []"
      by (simp add: filter_empty_conv)
    with True Cons.prems show ?thesis by (cases e) simp
  next
    case False
    with Cons show ?thesis by simp
  qed
qed

text \<open>
  C1. Let calls of \<open>ModelBuilder.build\<close> on the rows \<open>rows\<close>, one after the other, take
  a well-formed store \<open>s0\<close> to \<open>s\<close>, and let \<open>b\<close> be the brand of one of the rows. Then
  the registry of \<open>s\<close> has exactly one entry for \<open>b\<close>. If \<open>b\<close> was registered in \<open>s0\<close>
  the entry is the old one and no \<open>Manufacturer\<close> of brand \<open>b\<close> has been constructed; if
  not, exactly one has been, and it is the one registered. The models of that
  \<open>Manufacturer\<close> are those it had in \<open>s0\<close> followed by one \<open>Model\<close> for each row of
  brand \<open>b\<close>, in the order of the rows, so their number has grown by the number of such
  rows.
\<close>

theorem one_manufacturer_per_brand:
  assumes "wf_store s0"
    and "fold_build s0 rows = Inr s"
    and "kw \<in> set rows"
    and "row_brand kw = Some b"
  shows "\<exists>r. map_of (registry s) b = Some r \<and> r < length (objects s) \<and>
           filter (\<lambda>e. fst e = b) (registry s) = [(b, r)] \<and>
           (case map_of (registry s0) b of
              Some r0 \<Rightarrow>
                r = r0 \<and>
                filter (\<lambda>i. get_brand (objects s ! i) = b)
                  [length (objects s0)..<length (objects s)] = []
            | None \<Rightarrow>
                get_brand (objects s ! r) = b \<and>
                filter (\<lambda>i. get_brand (objects s ! i) = b)
                  [length (objects s0)..<length (objects s)] = [r]) \<and>
           get_all_models (objects s ! r) =
             models_of s0 b @ map (built_model r) (filter (\<lambda>kw. row_brand kw = Some b) rows) \<and>
           length (get_all_models (objects s ! r)) =
             length (models_of s0 b) + length (filter (\<lambda>kw. row_brand kw = Some b) rows)"
proof -
  from assms(2-4) obtain r where r: "map_of (registry s) b = Some r"
    by (blast dest: run_registers_rows)
  from assms(1,2) have wf: "wf_store s" by (rule run_wf)
  then have "valid_refs s" by (simp add: wf_store_def)
  then have bound: "r < length (objects s)" using r by (rule valid_refs_lookup)
  from wf r have once: "filter (\<lambda>e. fst e = b) (registry s) = [(b, r)]"
    by (simp add: wf_store_def filter_key_distinct)
  from r have ref: "ref_for s b = r" and models: "models_of s b = get_all_models (objects s ! r)"
    by (simp_all add: ref_for_def models_of_def)
  from run_models [OF assms(1,2), of b]
  have all: "get_all_models (objects s ! r) =
      models_of s0 b @ map (built_model r) (filter (\<lambda>kw. row_brand kw = Some b) rows)"
    by (simp add: ref models)
  let ?new = "[length (objects s0)..<length (objects s)]"
  have created: "(case map_of (registry s0) b of
      Some r0 \<Rightarrow> r = r0 \<and> filter (\<lambda>i. get_brand (objects s ! i) = b) ?new = []
    | None \<Rightarrow> get_brand (objects s ! r) = b \<and>
        filter (\<lambda>i. get_brand (objects s ! i) = b) ?new = [r])"
  proof (cases "map_of (registry s0) b")
    case (Some r0)
    with assms(2) have "map_of (registry s) b = Some r0" by (rule run_keeps_registered)
    with r have same: "r = r0" by simp
    from assms(1) Some have "r0 < length (objects s0)"
      by (simp add: wf_store_def valid_refs_lookup)
    with same have old: "r < length (objects s0)" by simp
    have "get_brand (objects s ! i) \<noteq> b" if "i \<in> set ?new" for i
    proof
      assume "get_brand (objects s ! i) = b"
      moreover from that have "length (objects s0) \<le> i" "i < length (objects s)"
        by simp_all
      with assms(2) have "map_of (registry s) (get_brand (objects s ! i)) = Some i"
        by (rule run_created_registered)
      ultimately have "i = r" using r by simp
      with that old show False by simp
    qed
    then have "filter (\<lambda>i. get_brand (objects s ! i) = b) ?new = []"
      by (simp add: filter_empty_conv)
    with Some same show ?thesis by simp
  next
    case None
    with assms(2) r have new: "length (objects s0) \<le> r" and brand: "get_brand (objects s ! r) = b"
      by (blast dest: run_new_registered)+
    have "(get_brand (objects s ! i) = b) = (i = r)" if "i \<in> set ?new" for i
    proof
      assume "get_brand (objects s ! i) = b"
      moreover from that have "length (objects s0) \<le> i" "i < length (objects s)"
        by simp_all
      with assms(2) have "map_of (registry s) (get_brand (objects s ! i)) = Some i"
        by (rule run_created_registered)
      ultimately show "i = r" using r by simp
    next
      assume "i = r"
      with brand show "get_brand (objects s ! i) = b" by simp
    qed
    then have "filter (\<lambda>i. get_brand (objects s ! i) = b) ?new = filter (\<lambda>i. i = r) ?new"
      by (intro filter_cong) simp_all
    also from new bound have "\<dots> = [r]" by (rule filter_upt_eq)
    finally show ?thesis using None brand by simp
  qed
  from all have "length (get_all_models (objects s ! r)) =
      length (models_of s0 b) + length (filter (\<lambda>kw. row_brand kw = Some b) rows)"
    by simp
  with r bound once created all show ?thesis by blast
qed

theorem one_manufacturer_per_brand_witness:
  "\<exists>s r. fold_build \<lparr>objects = [], registry = []\<rparr>
            [[(''name'', ''Ford Focus''), (''mpg'', ''32'')],
             [(''name'', ''Toyota Corolla''), (''mpg'', ''30'')],
             [(''name'', ''Ford Fiesta''), (''mpg'', ''35'')]] = Inr s \<and>
     filter (\<lambda>e. fst e = ''Ford'') (registry s) = [(''Ford'', r)] \<and>
     filter (\<lambda>i. get_brand (objects s ! i) = ''Ford'') [0..<length (objects s)] = [r] \<and>
     map get_model_name (get_all_models (objects s ! r)) = [''Focus'', ''Fiesta''] \<and>
     length (get_all_models (objects s ! r)) = 2"
proof -
  let ?s0 = "\<lparr>objects = [], registry = []\<rparr>"
  let ?focus = "[(''name'', ''Ford Focus''), (''mpg'', ''32'')]"
  let ?corolla = "[(''name'', ''Toyota Corolla''), (''mpg'', ''30'')]"
  let ?fiesta = "[(''name'', ''Ford Fiesta''), (''mpg'', ''35'')]"
  let ?rows = "[?focus, ?corolla, ?fiesta]"
  have split: "str_split ''Ford Focus'' = [''Ford'', ''Focus'']"
    "str_split ''Toyota Corolla'' = [''Toyota'', ''Corolla'']"
    "str_split ''Ford Fiesta'' = [''Ford'', ''Fiesta'']"
    by (simp_all add: str_split_def isspace_def)
  have "\<exists>s. fold_build ?s0 ?rows = Inr s"
    by (simp add: ModelBuilder_build_def split add_model_def
        ModelCharacteristicBuilder_build_def CHARACTERISTICS_DICT_def truth_def)
  then obtain s where run: "fold_build ?s0 ?rows = Inr s" ..
  have wf: "wf_store ?s0" by (simp add: wf_store_def valid_refs_def)
  have mem: "?focus \<in> set ?rows" by simp
  have brand: "row_brand ?focus = Some ''Ford''" by (simp add: row_brand_def split)
  have rows: "filter (\<lambda>kw. row_brand kw = Some ''Ford'') ?rows = [?focus, ?fiesta]"
    by (simp add: row_brand_def split)
  from one_manufacturer_per_brand [OF wf run mem brand, unfolded rows] obtain r where
    "filter (\<lambda>e. fst e = ''Ford'') (registry s) = [(''Ford'', r)]"
    "filter (\<lambda>i. get_brand (objects s ! i) = ''Ford'') [0..<length (objects s)] = [r]"
    "get_all_models (objects s ! r) = map (built_model r) [?focus, ?fiesta]"
    by (auto simp add: models_of_def)
  with run show ?thesis
    by (auto simp add: built_model_def row_model_name_def split)
qed

section \<open>Records longer or shorter than the header\<close>










section \<open>Two runs on the same source\<close>

lemma build_outcome:
  "map_sum fst (\<lambda>_. ()) (ModelBuilder_build s kw) = map_sum fst (\<lambda>_. ()) (ModelBuilder_build t kw)"
  by (simp add: ModelBuilder_build_def Let_def
      split: option.splits list.splits sum.splits prod.splits)

lemma build_Inl_any:
  assumes "ModelBuilder_build s kw = Inl (e, s')"
  shows "\<exists>t'. ModelBuilder_build t kw = Inl (e, t')"
proof -
  from assms build_outcome [of s kw t]
  have "map_sum fst (\<lambda>_. ()) (ModelBuilder_build t kw) = Inl e" by simp
  then show ?thesis by (cases "ModelBuilder_build t kw") auto
qed

lemma build_Inr_any:
  assumes "ModelBuilder_build s kw = Inr s'"
  obtains b where "s' = attach s b (row_model_name kw) (row_characteristics kw)"
    and "ModelBuilder_build t kw = Inr (attach t b (row_model_name kw) (row_characteristics kw))"
proof -
  from assms obtain b where b: "row_brand kw = Some b"
    and s': "s' = attach s b (row_model_name kw) (row_characteristics kw)"
    by (rule build_Inr_attach)
  from assms build_outcome [of s kw t]
  have "map_sum fst (\<lambda>_. ()) (ModelBuilder_build t kw) = Inr ()" by simp
  then obtain t' where t': "ModelBuilder_build t kw = Inr t'"
    by (cases "ModelBuilder_build t kw") auto
  then obtain b' where "row_brand kw = Some b'"
    "t' = attach t b' (row_model_name kw) (row_characteristics kw)"
    by (rule build_Inr_attach)
  with b t' have "ModelBuilder_build t kw = Inr (attach t b (row_model_name kw) (row_characteristics kw))"
    by simp
  with s' show thesis by (rule that)
qed

lemma keys_content: "map fst (registry_content s) = map fst (registry s)"
  by (simp add: registry_content_def case_prod_unfold)

lemma content_attach_new:
  assumes "valid_refs s" "map_of (registry s) b = None"
  shows "registry_content (attach s b mn cs) =
     registry_content s @ [(b, b, [(mn, map attribute_content cs)])]"
proof -
  let ?s' = "attach s b mn cs"
  let ?n = "length (objects s)"
  from assms(2) have reg: "registry ?s' = registry s @ [(b, ?n)]"
    by (simp add: registry_attach update_absent)
  have obj: "objects ?s' ! r = objects s ! r" if "r < ?n" for r
    using that assms(2) by (simp add: attach_def add_model_def nth_append)
  have "map (\<lambda>(k, r). (k, get_brand (objects ?s' ! r),
            map model_content (get_all_models (objects ?s' ! r)))) (registry s) =
        map (\<lambda>(k, r). (k, get_brand (objects s ! r),
            map model_content (get_all_models (objects s ! r)))) (registry s)"
  proof (rule map_cong [OF refl])
    fix e assume "e \<in> set (registry s)"
    with assms(1) have "snd e < ?n" by (simp add: valid_refs_def)
    then show "(case e of (k, r) \<Rightarrow> (k, get_brand (objects ?s' ! r),
            map model_content (get_all_models (objects ?s' ! r)))) =
        (case e of (k, r) \<Rightarrow> (k, get_brand (objects s ! r),
            map model_content (get_all_models (objects s ! r))))"
      by (cases e) (simp add: obj)
  qed
  with assms(2) show ?thesis
    by (simp add: registry_content_def reg attach_new(2) model_content_def)
qed

lemma content_attach_known:
  assumes "wf_store s" "map_of (registry s) b = Some rb"
  shows "registry_content (attach s b mn cs) =
     map (\<lambda>(k, br, ms). if k = b then (k, br, ms @ [(mn, map attribute_content cs)]) else (k, br, ms))
       (registry_content s)"
proof -
  let ?s' = "attach s b mn cs"
  let ?m = "\<lparr>get_model_name = mn, get_manufacturer = rb, get_characteristics = cs\<rparr>"
  from assms(1) have valid: "valid_refs s" and keys: "distinct (map fst (registry s))"
    and refs: "distinct (map snd (registry s))"
    by (simp_all add: wf_store_def)
  from valid assms(2) have rb: "rb < length (objects s)" by (rule valid_refs_lookup)
  from assms(2) have reg: "registry ?s' = registry s" by (simp add: registry_attach)
  from assms(2) have obj: "objects ?s' = (objects s)[rb := (objects s ! rb)
      \<lparr>get_all_models := get_all_models (objects s ! rb) @ [?m]\<rparr>]"
    by (simp add: attach_def add_model_def)
  have "(case e of (k, r) \<Rightarrow> (k, get_brand (objects ?s' ! r),
            map model_content (get_all_models (objects ?s' ! r)))) =
        (case (case e of (k, r) \<Rightarrow> (k, get_brand (objects s ! r),
            map model_content (get_all_models (objects s ! r)))) of
           (k, br, ms) \<Rightarrow> if k = b then (k, br, ms @ [(mn, map attribute_content cs)])
                          else (k, br, ms))"
    if "e \<in> set (registry s)" for e
  proof (cases e)
    case (Pair k r)
    with that keys have k: "map_of (registry s) k = Some r" by simp
    show ?thesis
    proof (cases "k = b")
      case True
      with k assms(2) have "r = rb" by simp
      with True Pair rb show ?thesis by (simp add: obj model_content_def)
    next
      case False
      with refs k assms(2) have "r \<noteq> rb" by (auto dest: distinct_refs_inj)
      with False Pair show ?thesis by (simp add: obj)
    qed
  qed
  then show ?thesis
    by (simp add: registry_content_def reg cong: map_cong)
qed

lemma content_of_attach:
  assumes "wf_store s"
  shows "registry_content (attach s b mn cs) =
     content_attach (registry_content s) b (mn, map attribute_content cs)"
proof (cases "map_of (registry s) b")
  case None
  then have "b \<notin> fst ` set (registry_content s)"
    using keys_content [of s] by (metis list.set_map map_of_eq_None_iff)
  moreover from assms have "valid_refs s" by (simp add: wf_store_def)
  ultimately show ?thesis using None
    by (simp add: content_attach_def content_attach_new)
next
  case (Some rb)
  then have "b \<in> fst ` set (registry_content s)"
    using keys_content [of s] by (metis list.set_map map_of_eq_None_iff option.distinct(1))
  with assms Some show ?thesis
    by (simp add: content_attach_def content_attach_known)
qed

lemma process_row_Inl_any:
  assumes "process_row h s row = Inl (e, s')"
  shows "\<exists>t'. process_row h t row = Inl (e, t')"
proof (cases "fill_representation h row 0 []")
  case (Inl e')
  with assms show ?thesis by (simp add: process_row_def)
next
  case (Inr rep)
  with assms have "ModelBuilder_build s rep = Inl (e, s')" by (simp add: process_row_def)
  then have "\<exists>t'. ModelBuilder_build t rep = Inl (e, t')" by (rule build_Inl_any)
  with Inr show ?thesis by (simp add: process_row_def)
qed

lemma process_row_Inr_any:
  assumes "process_row h s row = Inr s'"
  obtains b mn cs where "s' = attach s b mn cs"
    and "process_row h t row = Inr (attach t b mn cs)"
proof (cases "fill_representation h row 0 []")
  case (Inl e')
  with assms show ?thesis by (simp add: process_row_def)
next
  case (Inr rep)
  with assms have "ModelBuilder_build s rep = Inr s'" by (simp add: process_row_def)
  then obtain b where "s' = attach s b (row_model_name rep) (row_characteristics rep)"
    "ModelBuilder_build t rep = Inr (attach t b (row_model_name rep) (row_characteristics rep))"
    by (rule build_Inr_any)
  with Inr show ?thesis by (intro that) (simp_all add: process_row_def)
qed

lemma read_loop_content:
  "wf_store s \<Longrightarrow> wf_store t \<Longrightarrow> registry_content s = registry_content t \<Longrightarrow>
   map_sum id registry_content (read_loop s (Suc n) h rows) =
   map_sum id registry_content (read_loop t (Suc n) h rows)"
proof (induction rows arbitrary: s t n)
  case Nil
  then show ?case by simp
next
  case (Cons row rows)
  show ?case
  proof (cases "process_row h s row")
    case (Inl es)
    obtain e s' where es: "es = (e, s')" by (cases es)
    with Inl have "\<exists>t'. process_row h t row = Inl (e, t')"
      by (intro process_row_Inl_any) simp
    with Inl es show ?thesis by auto
  next
    case (Inr s')
    then obtain b mn cs where s': "s' = attach s b mn cs"
      and t': "process_row h t row = Inr (attach t b mn cs)"
      by (rule process_row_Inr_any)
    let ?t' = "attach t b mn cs"
    from Cons.prems have "wf_store s'" "wf_store ?t'"
      by (simp_all add: s' attach_wf)
    moreover from Cons.prems have "registry_content s' = registry_content ?t'"
      by (simp add: s' content_of_attach)
    ultimately have "map_sum id registry_content (read_loop s' (Suc (Suc n)) h rows) =
        map_sum id registry_content (read_loop ?t' (Suc (Suc n)) h rows)"
      by (rule Cons.IH)
    with Inr t' show ?thesis by (simp add: id_def)
  qed
qed

text \<open>
  C7. Two runs of \<open>DatasetReader.read\<close> on the same records, whatever \<open>Manufacturer\<close>
  objects exist when each starts (those of an earlier run, say), raise the same error or
  return registries of the same content: the same brands, and for each brand the same
  models with the same kind, raw value, unit and rendering of every characteristic.
\<close>

theorem read_deterministic:
  "map_sum id registry_content (DatasetReader_read heap1 rows) =
   map_sum id registry_content (DatasetReader_read heap2 rows)"
proof (cases rows)
  case Nil
  then show ?thesis by (simp add: DatasetReader_read_def registry_content_def)
next
  case (Cons header records)
  have "wf_store \<lparr>objects = heap1, registry = []\<rparr>" "wf_store \<lparr>objects = heap2, registry = []\<rparr>"
    by (simp_all add: wf_store_def valid_refs_def)
  moreover have "registry_content \<lparr>objects = heap1, registry = []\<rparr> =
      registry_content \<lparr>objects = heap2, registry = []\<rparr>"
    by (simp add: registry_content_def)
  ultimately show ?thesis
    unfolding Cons read_header by (rule read_loop_content)
qed

theorem read_deterministic_witness:
  "map_sum id registry_content
     (DatasetReader_read [] [[''name'', ''mpg''], [''Ford Focus'', ''32'']]) =
   map_sum id registry_content
     (DatasetReader_read [\<lparr>get_brand = ''Ford'', get_all_models = []\<rparr>]
        [[''name'', ''mpg''], [''Ford Focus'', ''32'']]) \<and>
   DatasetReader_read [] [[''name'', ''mpg''], [''Ford Focus'', ''32'']] \<noteq>
   DatasetReader_read [\<lparr>get_brand = ''Ford'', get_all_models = []\<rparr>]
     [[''name'', ''mpg''], [''Ford Focus'', ''32'']]"
proof -
  have split: "str_split ''Ford Focus'' = [''Ford'', ''Focus'']"
    by (simp add: str_split_def isspace_def)
  have "DatasetReader_read [] [[''name'', ''mpg''], [''Ford Focus'', ''32'']] \<noteq>
      DatasetReader_read [\<lparr>get_brand = ''Ford'', get_all_models = []\<rparr>]
        [[''name'', ''mpg''], [''Ford Focus'', ''32'']]"
    by (simp add: DatasetReader_read_def process_row_def ModelBuilder_build_def
        split add_model_def ModelCharacteristicBuilder_build_def CHARACTERISTICS_DICT_def truth_def)
  with read_deterministic [of "[]" "[[''name'', ''mpg''], [''Ford Focus'', ''32'']]"
      "[\<lparr>get_brand = ''Ford'', get_all_models = []\<rparr>]"]
  show ?thesis by simp
qed

end
